theory Spec2Isabelle
  imports Main "HOL-Library.Word" "HOL-Library.Sublist"
begin

unbundle bit_operations_syntax

section \<open>FileWatch.hpp: data model\<close>

text \<open>
  The header defines one class template, \<^verbatim>\<open>filewatch::FileWatch<T>\<close>, with two
  platform variants selected by \<^verbatim>\<open>#ifdef _WIN32\<close> and \<^verbatim>\<open>#if __unix__\<close>. The string
  type \<^verbatim>\<open>T\<close> is \<^verbatim>\<open>std::string\<close> on unix (characters are \<^typ>\<open>char\<close>) and
  \<^verbatim>\<open>std::wstring\<close> on Windows (characters are 16-bit code units, \<^typ>\<open>16 word\<close>).
  Private members \<^verbatim>\<open>_x\<close> of the class are written \<open>fw_x\<close> here.
\<close>

datatype Event = added | removed | modified | renamed_old | renamed_new

record 'c PathParts =
  directory :: "'c list"
  filename :: "'c list"

text \<open>
  The two platform-dependent pieces of \<^verbatim>\<open>split_directory_and_file\<close>: the lambda
  \<^verbatim>\<open>predict\<close> and the constant \<^verbatim>\<open>this_directory\<close>.
\<close>

record 'c platform =
  predict :: "'c \<Rightarrow> bool"
  this_directory :: "'c list"

definition unix :: "char platform" where
  "unix = \<lparr>predict = (\<lambda>character. character = CHR ''/''), this_directory = ''./''\<rparr>"

text \<open>On Windows \<^verbatim>\<open>_T('\\')\<close> is 0x5C, \<^verbatim>\<open>_T('/')\<close> is 0x2F and \<^verbatim>\<open>_T("./")\<close> is 0x2E 0x2F.\<close>

definition win32 :: "16 word platform" where
  "win32 = \<lparr>predict = (\<lambda>character. character = 0x5C \<or> character = 0x2F),
             this_directory = [0x2E, 0x2F]\<rparr>"

section \<open>Path splitting and the single-file filter\<close>

text \<open>
  \<^verbatim>\<open>std::find_if(path.rbegin(), path.rend(), predict).base()\<close>: the reverse iterator
  stops \<open>k\<close> places from the end, where \<open>k\<close> is the number of trailing characters that
  do not satisfy the predicate (\<open>k\<close> is the whole length when none does), and
  \<^verbatim>\<open>base()\<close> of it is the forward position \<open>size - k\<close>.
\<close>

definition find_if_rbegin_base :: "('c \<Rightarrow> bool) \<Rightarrow> 'c list \<Rightarrow> nat" where
  "find_if_rbegin_base p path = length path - length (takeWhile (\<lambda>c. \<not> p c) (rev path))"

definition split_directory_and_file :: "'c platform \<Rightarrow> 'c list \<Rightarrow> 'c PathParts" where
  "split_directory_and_file pf path =
     (let pivot = find_if_rbegin_base (predict pf) path;
          extracted_directory = take pivot path;
          directory = (if length extracted_directory > 0 then extracted_directory
                       else this_directory pf);
          filename = drop pivot path
      in \<lparr>directory = directory, filename = filename\<rparr>)"

text \<open>The members \<^verbatim>\<open>pass_filter\<close> reads: \<^verbatim>\<open>_watching_single_file\<close> and \<^verbatim>\<open>_filename\<close>.\<close>

record 'c watch_filter =
  fw_watching_single_file :: bool
  fw_filename :: "'c list"

definition pass_filter :: "'c platform \<Rightarrow> 'c watch_filter \<Rightarrow> 'c list \<Rightarrow> bool" where
  "pass_filter pf w file_path =
     (if fw_watching_single_file w
      then (let extracted_filename = filename (split_directory_and_file pf file_path)
            in extracted_filename = fw_filename w)
      else True)"

section \<open>The event queue and the dispatcher thread\<close>

text \<open>
  What one call of \<^verbatim>\<open>_callback(file.first, file.second)\<close> does: it returns, it throws
  an exception derived from \<^verbatim>\<open>std::exception\<close>, or it throws something else (C++ lets
  a function throw a value of any type). The callback is user code with a state of its
  own (\<open>'u\<close>), and a \<^verbatim>\<open>std::function\<close> may be empty (\<open>None\<close>). A call that never
  returns is not an outcome: it is a dispatcher thread that takes no further step.
\<close>

datatype cb_outcome = returns | throws_std_exception | throws_other

type_synonym ('c, 'u) callback = "'c list \<Rightarrow> Event \<Rightarrow> 'u \<Rightarrow> cb_outcome \<times> 'u"

text \<open>
  Where the thread running \<^verbatim>\<open>callback_thread\<close> is: about to evaluate the loop condition
  (line 408), about to take \<^verbatim>\<open>_callback_mutex\<close> (line 409), blocked in \<^verbatim>\<open>cv.wait\<close> with
  the mutex released (line 411), iterating the local \<^verbatim>\<open>callback_information\<close> with the
  given elements still to visit (lines 417 to 427), returned from the function, or
  ended by \<^verbatim>\<open>std::terminate\<close> because an exception left the thread function.
\<close>

datatype 'c position =
  at_while | at_lock | waiting | in_for "('c list \<times> Event) list" | exited | terminated

text \<open>
  The state shared by the threads of one watcher: the members \<^verbatim>\<open>_destory\<close> and
  \<^verbatim>\<open>_callback_information\<close>, the position of the dispatcher thread, the state of the
  user's callback, and (for stating properties) the list of calls made so far.
\<close>

record ('c, 'u) session =
  fw_destory :: bool
  fw_callback_information :: "('c list \<times> Event) list"
  position :: "'c position"
  user :: 'u
  calls :: "('c list \<times> Event) list"

text \<open>Lines 413 to 415: swap the queue into a fresh local vector and unlock.\<close>

definition swap_out :: "('c, 'u) session \<Rightarrow> ('c, 'u) session" where
  "swap_out s = s\<lparr>position := in_for (fw_callback_information s), fw_callback_information := []\<rparr>"

text \<open>Lines 418 to 426: one iteration of the range-for over the local vector.\<close>

definition invoke :: "('c, 'u) callback option \<Rightarrow> 'c list \<times> Event \<Rightarrow> ('c list \<times> Event) list
    \<Rightarrow> ('c, 'u) session \<Rightarrow> ('c, 'u) session" where
  "invoke cb file rest s =
     (case cb of
        None \<Rightarrow> s\<lparr>position := in_for rest\<rparr>
      | Some c \<Rightarrow>
          (case c (fst file) (snd file) (user s) of
             (returns, u) \<Rightarrow> s\<lparr>position := in_for rest, user := u, calls := calls s @ [file]\<rparr>
           | (throws_std_exception, u) \<Rightarrow>
               s\<lparr>position := in_for rest, user := u, calls := calls s @ [file]\<rparr>
           | (throws_other, u) \<Rightarrow>
               s\<lparr>position := terminated, user := u, calls := calls s @ [file]\<rparr>))"

text \<open>
  One step of the dispatcher thread. The mutex is held only between lines 409 and 415,
  where the thread neither blocks (except in \<^verbatim>\<open>cv.wait\<close>, which releases it) nor calls
  out, so each locked region is one step. \<^verbatim>\<open>cv.wait(lock, pred)\<close> returns only with the
  predicate \<^verbatim>\<open>_callback_information.size() > 0 || _destory\<close> true; the step of a
  waiting thread is not enabled (\<open>None\<close>) before that. The atomic \<^verbatim>\<open>_destory\<close> is read
  at line 410 and again by the predicate at line 411; a change between the two reads
  gives the state the step \<open>at_lock\<close> to \<open>waiting\<close> followed by the step out of \<open>waiting\<close>
  gives. Notifications are not tracked: a waiting thread may step as soon as the
  predicate holds, so the steps of the program are among those of the model. After
  \<^verbatim>\<open>std::terminate\<close> the model still lets the other threads step; the dispatcher does not.
\<close>

definition callback_thread_step ::
    "('c, 'u) callback option \<Rightarrow> ('c, 'u) session \<Rightarrow> ('c, 'u) session option" where
  "callback_thread_step cb s =
     (case position s of
        at_while \<Rightarrow>
          Some (if fw_destory s = False then s\<lparr>position := at_lock\<rparr> else s\<lparr>position := exited\<rparr>)
      | at_lock \<Rightarrow>
          Some (if fw_callback_information s = [] \<and> fw_destory s = False
                then s\<lparr>position := waiting\<rparr> else swap_out s)
      | waiting \<Rightarrow>
          (if length (fw_callback_information s) > 0 \<or> fw_destory s then Some (swap_out s)
           else None)
      | in_for [] \<Rightarrow> Some (s\<lparr>position := at_while\<rparr>)
      | in_for (file # rest) \<Rightarrow> Some (invoke cb file rest s)
      | exited \<Rightarrow> None
      | terminated \<Rightarrow> None)"

text \<open>
  The other threads, as far as they touch this state: the monitor thread appends its
  \<^verbatim>\<open>parsed_information\<close> at the end of the queue under the mutex (lines 396 to 399 on
  unix, 299 to 302 on Windows), and the destructor sets \<^verbatim>\<open>_destory\<close> (line 88).
\<close>

datatype 'c action =
  dispatch | enqueue "('c list \<times> Event) list" | set_destory

definition step ::
    "('c, 'u) callback option \<Rightarrow> 'c action \<Rightarrow> ('c, 'u) session \<Rightarrow> ('c, 'u) session option" where
  "step cb a s =
     (case a of
        dispatch \<Rightarrow> callback_thread_step cb s
      | enqueue parsed_information \<Rightarrow>
          Some (s\<lparr>fw_callback_information := fw_callback_information s @ parsed_information\<rparr>)
      | set_destory \<Rightarrow> Some (s\<lparr>fw_destory := True\<rparr>))"

text \<open>A schedule is an interleaving of the three threads; \<open>None\<close> when a step is not enabled.\<close>

fun run :: "('c, 'u) callback option \<Rightarrow> 'c action list \<Rightarrow> ('c, 'u) session
    \<Rightarrow> ('c, 'u) session option" where
  "run cb [] s = Some s"
| "run cb (a # as) s = (case step cb a s of None \<Rightarrow> None | Some s' \<Rightarrow> run cb as s')"

text \<open>The state when the constructor has started the dispatcher thread.\<close>

definition started :: "'u \<Rightarrow> ('c, 'u) session" where
  "started u = \<lparr>fw_destory = False, fw_callback_information = [], position = at_while,
                user = u, calls = []\<rparr>"

text \<open>The events every \<open>enqueue\<close> of a schedule appended, in order.\<close>

fun enqueued :: "'c action list \<Rightarrow> ('c list \<times> Event) list" where
  "enqueued [] = []"
| "enqueued (enqueue parsed_information # as) = parsed_information @ enqueued as"
| "enqueued (a # as) = enqueued as"

text \<open>The elements the range-for has still to visit.\<close>

fun in_flight :: "'c position \<Rightarrow> ('c list \<times> Event) list" where
  "in_flight (in_for rest) = rest"
| "in_flight p = []"

text \<open>
  The events the dispatcher is bound to pass to the callback before it can return: those
  already passed, and those it holds locally or will swap out at its next step.
\<close>

fun committed :: "('c, 'u) session \<Rightarrow> ('c list \<times> Event) list" where
  "committed s = calls s @ (case position s of
       in_for rest \<Rightarrow> rest
     | at_lock \<Rightarrow> fw_callback_information s
     | waiting \<Rightarrow> fw_callback_information s
     | _ \<Rightarrow> [])"

section \<open>The monitor thread: decoding a notification buffer\<close>

text \<open>
  How the monitor thread can end other than by returning: by reading outside the buffer
  (undefined behaviour in C++), or by \<^verbatim>\<open>std::map::at\<close> throwing \<^verbatim>\<open>std::out_of_range\<close>,
  which nothing in \<^verbatim>\<open>monitor_directory\<close> catches.
\<close>

datatype monitor_error = undefined_behaviour | out_of_range

subsection \<open>unix (inotify)\<close>

text \<open>
  The constants the unix variant takes from \<^verbatim>\<open><sys/inotify.h>\<close>, which is not part of the
  repository: the three event bits it tests and \<^verbatim>\<open>sizeof(struct inotify_event)\<close>. They
  are a parameter of the model; \<open>linux_inotify_h\<close> holds the values Linux gives them.
\<close>

record inotify_h =
  IN_MODIFY :: "32 word"
  IN_CREATE :: "32 word"
  IN_DELETE :: "32 word"
  event_size :: nat

definition linux_inotify_h :: inotify_h where
  "linux_inotify_h = \<lparr>IN_MODIFY = 0x2, IN_CREATE = 0x100, IN_DELETE = 0x200, event_size = 16\<rparr>"

text \<open>Line 161: \<^verbatim>\<open>_listen_filters = IN_MODIFY | IN_CREATE | IN_DELETE\<close>.\<close>

definition listen_filters :: "inotify_h \<Rightarrow> 32 word" where
  "listen_filters h = IN_MODIFY h OR IN_CREATE h OR IN_DELETE h"

text \<open>
  The fields of \<^verbatim>\<open>struct inotify_event\<close> the loop reads: \<^verbatim>\<open>mask\<close>, \<^verbatim>\<open>len\<close>, and \<^verbatim>\<open>name\<close>
  as the C string \<^verbatim>\<open>string_type{event->name}\<close> copies. The buffer is seen through the
  cast \<^verbatim>\<open>(struct inotify_event *) &buffer[i]\<close>: a function from the byte offset \<open>i\<close> to
  the structure read there, \<open>None\<close> where the read is outside the vector.
\<close>

record inotify_event =
  mask :: "32 word"
  len :: "32 word"
  name :: string

type_synonym inotify_buffer = "int \<Rightarrow> inotify_event option"

text \<open>
  \<^verbatim>\<open>i += event_size + event->len\<close> with \<^verbatim>\<open>int i\<close>: the sum is computed in \<^verbatim>\<open>size_t\<close> and
  converted back to a 32-bit \<^verbatim>\<open>int\<close>, which wraps around.
\<close>

definition to_int :: "int \<Rightarrow> int" where
  "to_int x = sint (word_of_int x :: 32 word)"

text \<open>Lines 374 to 392: what one record appends to \<^verbatim>\<open>parsed_information\<close>.\<close>

definition decode_inotify_event ::
    "inotify_h \<Rightarrow> char watch_filter \<Rightarrow> inotify_event \<Rightarrow> (string \<times> Event) list" where
  "decode_inotify_event h w event =
     (if len event \<noteq> 0 then
        (let changed_file = name event in
         if pass_filter unix w changed_file then
           (if mask event AND IN_CREATE h \<noteq> 0 then [(changed_file, added)]
            else if mask event AND IN_DELETE h \<noteq> 0 then [(changed_file, removed)]
            else if mask event AND IN_MODIFY h \<noteq> 0 then [(changed_file, modified)]
            else [])
         else [])
      else [])"

text \<open>
  Lines 371 to 394: the loop \<^verbatim>\<open>while (i < length)\<close>. A negative \<open>i\<close> indexes the vector
  out of range. The loop need not terminate (a record whose \<^verbatim>\<open>len\<close> makes the sum wrap
  around to \<open>i\<close> again is decoded for ever), so it is a partial function: \<open>None\<close> is
  not returning. \<open>length'\<close> is the source's \<^verbatim>\<open>length\<close>, the result of \<^verbatim>\<open>read\<close>.
\<close>

partial_function (option) parse_inotify ::
    "inotify_h \<Rightarrow> char watch_filter \<Rightarrow> inotify_buffer \<Rightarrow> int \<Rightarrow> int \<Rightarrow> (string \<times> Event) list
      \<Rightarrow> (monitor_error + (string \<times> Event) list) option" where
  "parse_inotify h w buffer length' i parsed_information =
     (if i < length' then
        (if i < 0 then Some (Inl undefined_behaviour) else
         case buffer i of
           None \<Rightarrow> Some (Inl undefined_behaviour)
         | Some event \<Rightarrow>
             parse_inotify h w buffer length' (to_int (i + int (event_size h) + uint (len event)))
               (parsed_information @ decode_inotify_event h w event))
      else Some (Inr parsed_information))"

text \<open>
  For stating properties: the buffer holds the given records back to back from offset
  \<open>i\<close> on, each taking \<^verbatim>\<open>event_size + len\<close> bytes, and the offset just after the last.
\<close>

fun framed :: "inotify_h \<Rightarrow> inotify_buffer \<Rightarrow> int \<Rightarrow> inotify_event list \<Rightarrow> bool" where
  "framed h buffer i [] = True"
| "framed h buffer i (event # events) =
     (buffer i = Some event \<and> framed h buffer (i + int (event_size h) + uint (len event)) events)"

fun frame_end :: "inotify_h \<Rightarrow> int \<Rightarrow> inotify_event list \<Rightarrow> int" where
  "frame_end h i [] = i"
| "frame_end h i (event # events) = frame_end h (i + int (event_size h) + uint (len event)) events"

subsection \<open>Windows (ReadDirectoryChangesW)\<close>

text \<open>
  The action codes the Windows variant takes from \<^verbatim>\<open><winnt.h>\<close>, which is not part of the
  repository. They are a parameter of the model; \<open>windows_winnt_h\<close> holds the values
  Windows gives them.
\<close>

record winnt_h =
  FILE_ACTION_ADDED :: "32 word"
  FILE_ACTION_REMOVED :: "32 word"
  FILE_ACTION_MODIFIED :: "32 word"
  FILE_ACTION_RENAMED_OLD_NAME :: "32 word"
  FILE_ACTION_RENAMED_NEW_NAME :: "32 word"

definition windows_winnt_h :: winnt_h where
  "windows_winnt_h = \<lparr>FILE_ACTION_ADDED = 1, FILE_ACTION_REMOVED = 2, FILE_ACTION_MODIFIED = 3,
     FILE_ACTION_RENAMED_OLD_NAME = 4, FILE_ACTION_RENAMED_NEW_NAME = 5\<rparr>"

text \<open>
  Lines 144 to 150: \<^verbatim>\<open>_event_type_mapping\<close>, a \<^verbatim>\<open>std::map\<close> built from five pairs (the
  first pair of a key wins). A lookup is \<^verbatim>\<open>_event_type_mapping.at(key)\<close>, which throws
  \<^verbatim>\<open>std::out_of_range\<close> for a key that is not in the map (\<open>None\<close> here).
\<close>

definition event_type_mapping :: "winnt_h \<Rightarrow> 32 word \<Rightarrow> Event option" where
  "event_type_mapping h = map_of
     [(FILE_ACTION_ADDED h, added),
      (FILE_ACTION_REMOVED h, removed),
      (FILE_ACTION_MODIFIED h, modified),
      (FILE_ACTION_RENAMED_OLD_NAME h, renamed_old),
      (FILE_ACTION_RENAMED_NEW_NAME h, renamed_new)]"

text \<open>
  \<^verbatim>\<open>FILE_NOTIFY_INFORMATION\<close> as the loop reads it; \<open>FileName\<close> is the sequence of
  16-bit code units stored from the field's address on. The buffer is seen through
  the cast at lines 275 and 288: a function from the byte offset to the structure read
  there, \<open>None\<close> where the read is outside the vector.
\<close>

record FILE_NOTIFY_INFORMATION =
  NextEntryOffset :: "32 word"
  Action :: "32 word"
  FileNameLength :: "32 word"
  FileName :: "16 word list"

type_synonym notify_buffer = "nat \<Rightarrow> FILE_NOTIFY_INFORMATION option"

text \<open>Line 115: \<^verbatim>\<open>_buffer_size = { 1024 * 256 }\<close>.\<close>

definition buffer_size :: nat where
  "buffer_size = 1024 * 256"

text \<open>
  Lines 278 to 282: \<^verbatim>\<open>changed_file\<close> is \<^verbatim>\<open>FileNameLength / 2\<close> code units of \<^verbatim>\<open>FileName\<close>;
  when it passes the filter, \<^verbatim>\<open>emplace_back\<close> appends it with the mapped event type, and
  nothing is appended when \<^verbatim>\<open>at\<close> throws.
\<close>

definition emplace_notify_information ::
    "winnt_h \<Rightarrow> 16 word watch_filter \<Rightarrow> FILE_NOTIFY_INFORMATION \<Rightarrow> (16 word list \<times> Event) list
      \<Rightarrow> monitor_error + (16 word list \<times> Event) list" where
  "emplace_notify_information h w fi parsed_information =
     (let changed_file = take (unat (FileNameLength fi) div 2) (FileName fi) in
      if pass_filter win32 w changed_file
      then (case event_type_mapping h (Action fi) of
              None \<Rightarrow> Inl out_of_range
            | Some event_type \<Rightarrow> Inr (parsed_information @ [(changed_file, event_type)]))
      else Inr parsed_information)"

text \<open>
  Lines 275 to 289: the \<^verbatim>\<open>do ... while (true)\<close> loop; \<open>file_information\<close> is the offset of
  the pointer of that name from the start of the buffer.
\<close>

function parse_notify_information ::
    "winnt_h \<Rightarrow> 16 word watch_filter \<Rightarrow> notify_buffer \<Rightarrow> nat \<Rightarrow> (16 word list \<times> Event) list
      \<Rightarrow> monitor_error + (16 word list \<times> Event) list" where
  "parse_notify_information h w buffer file_information parsed_information =
     (if file_information \<ge> buffer_size then Inl undefined_behaviour else
      case buffer file_information of
        None \<Rightarrow> Inl undefined_behaviour
      | Some fi \<Rightarrow>
          (case emplace_notify_information h w fi parsed_information of
             Inl e \<Rightarrow> Inl e
           | Inr parsed_information' \<Rightarrow>
               if NextEntryOffset fi = 0 then Inr parsed_information'
               else parse_notify_information h w buffer
                      (file_information + unat (NextEntryOffset fi)) parsed_information'))"
  by pat_completeness auto
termination
proof (relation "measure (\<lambda>(h, w, buffer, file_information, parsed_information).
                   buffer_size - file_information)")
  fix file_information :: nat and fi :: FILE_NOTIFY_INFORMATION
    and h :: winnt_h and w :: "16 word watch_filter" and buffer :: notify_buffer
    and parsed_information parsed_information' :: "(16 word list \<times> Event) list"
  assume "\<not> buffer_size \<le> file_information" and "NextEntryOffset fi \<noteq> 0"
  then have "0 < unat (NextEntryOffset fi)" and "file_information < buffer_size"
    by (simp_all add: unat_gt_0)
  then show "((h, w, buffer, file_information + unat (NextEntryOffset fi), parsed_information'),
              (h, w, buffer, file_information, parsed_information))
        \<in> measure (\<lambda>(h, w, buffer, file_information, parsed_information).
                      buffer_size - file_information)"
    by simp
qed simp

text \<open>
  For stating properties: the buffer holds the given records as a chain from offset
  \<open>off\<close>, each linked to the next by its \<^verbatim>\<open>NextEntryOffset\<close> and the last with
  \<^verbatim>\<open>NextEntryOffset\<close> zero; and what appending the records of a chain one after the other
  gives, stopping at the first that throws.
\<close>

fun chained :: "notify_buffer \<Rightarrow> nat \<Rightarrow> FILE_NOTIFY_INFORMATION list \<Rightarrow> bool" where
  "chained buffer off [] = False"
| "chained buffer off [fi] = (off < buffer_size \<and> buffer off = Some fi \<and> NextEntryOffset fi = 0)"
| "chained buffer off (fi # fj # rest) =
     (off < buffer_size \<and> buffer off = Some fi \<and> NextEntryOffset fi \<noteq> 0 \<and>
      chained buffer (off + unat (NextEntryOffset fi)) (fj # rest))"

fun emplace_all :: "winnt_h \<Rightarrow> 16 word watch_filter \<Rightarrow> FILE_NOTIFY_INFORMATION list
    \<Rightarrow> (16 word list \<times> Event) list \<Rightarrow> monitor_error + (16 word list \<times> Event) list" where
  "emplace_all h w [] parsed_information = Inr parsed_information"
| "emplace_all h w (fi # rest) parsed_information =
     (case emplace_notify_information h w fi parsed_information of
        Inl e \<Rightarrow> Inl e
      | Inr parsed_information' \<Rightarrow> emplace_all h w rest parsed_information')"

section \<open>Construction on unix\<close>

text \<open>
  What the operating system answers to the calls \<^verbatim>\<open>get_directory\<close> makes, and the part of
  the process state those calls change: the open file descriptors, the registered
  watches (descriptor, watch, watched path) and the number of threads the object has
  started. A failing call leaves its error code in \<^verbatim>\<open>errno\<close>.
\<close>

record unix_answers =
  inotify_init_returns :: int
  stat_returns :: int
  S_ISREG :: bool
  inotify_add_watch_returns :: int
  errno :: int

record process =
  descriptors :: "int list"
  inotify_watches :: "(int \<times> int \<times> string) list"
  threads :: nat

record FolderInfo =
  folder :: int
  watch :: int

text \<open>
  Lines 317 to 325. A \<^verbatim>\<open>throw std::system_error(errno, std::system_category())\<close> is
  the result \<open>Inl\<close> of the error code.
\<close>

definition is_file :: "unix_answers \<Rightarrow> string \<Rightarrow> int + bool" where
  "is_file os path = (if stat_returns os \<noteq> 0 then Inl (errno os) else Inr (S_ISREG os))"

text \<open>
  Lines 327 to 358. The function also sets the members \<^verbatim>\<open>_watching_single_file\<close> and
  \<^verbatim>\<open>_filename\<close> (empty unless a single file is watched); they are returned with the
  \<^verbatim>\<open>FolderInfo\<close>. No path through the function calls \<^verbatim>\<open>close\<close>. The line written to
  \<^verbatim>\<open>std::cout\<close> at line 351 is left out.
\<close>

definition get_directory ::
    "unix_answers \<Rightarrow> string \<Rightarrow> process \<Rightarrow> (int + FolderInfo \<times> char watch_filter) \<times> process" where
  "get_directory os path p =
     (let folder = inotify_init_returns os in
      if folder < 0 then (Inl (errno os), p)
      else
        (let p = p\<lparr>descriptors := descriptors p @ [folder]\<rparr> in
         case is_file os path of
           Inl e \<Rightarrow> (Inl e, p)
         | Inr watching_single_file \<Rightarrow>
             (let w = (if watching_single_file
                       then \<lparr>fw_watching_single_file = True,
                             fw_filename = filename (split_directory_and_file unix path)\<rparr>
                       else \<lparr>fw_watching_single_file = False, fw_filename = []\<rparr>);
                  watch_path = (if watching_single_file
                                then directory (split_directory_and_file unix path) else path);
                  watch = inotify_add_watch_returns os
              in if watch < 0 then (Inl (errno os), p)
                 else (Inr (\<lparr>folder = folder, watch = watch\<rparr>, w),
                       p\<lparr>inotify_watches := inotify_watches p @ [(folder, watch, watch_path)]\<rparr>))))"

text \<open>
  Lines 73 to 86: the member initialisers run \<^verbatim>\<open>get_directory\<close>; when it throws, the
  constructor body is not entered and, the object not being constructed, the
  destructor (the only place that calls \<^verbatim>\<open>close\<close>) never runs for it. Otherwise the
  body starts the two threads.
\<close>

record 'u FileWatch =
  fw_path :: string
  fw_callback :: "(char, 'u) callback option"
  fw_filter :: "char watch_filter"
  fw_directory :: FolderInfo

definition FileWatch_constructor ::
    "unix_answers \<Rightarrow> string \<Rightarrow> (char, 'u) callback option \<Rightarrow> process
      \<Rightarrow> (int + 'u FileWatch) \<times> process" where
  "FileWatch_constructor os path callback p =
     (case get_directory os path p of
        (Inl e, p') \<Rightarrow> (Inl e, p')
      | (Inr (d, w), p') \<Rightarrow>
          (Inr \<lparr>fw_path = path, fw_callback = callback, fw_filter = w, fw_directory = d\<rparr>,
           p'\<lparr>threads := threads p' + 2\<rparr>))"

section \<open>Properties of path splitting\<close>

lemma find_if_rbegin_base_none:
  assumes "\<forall>x \<in> set path. \<not> p x"
  shows "find_if_rbegin_base p path = 0"
proof -
  have all: "takeWhile (\<lambda>c. \<not> p c) (rev path) = rev path"
    by (rule takeWhile_eq_all_conv [THEN iffD2]) (use assms in simp)
  show ?thesis unfolding find_if_rbegin_base_def all by simp
qed

lemma find_if_rbegin_base_last:
  assumes "p c" and "\<forall>x \<in> set suf. \<not> p x"
  shows "find_if_rbegin_base p (pre @ c # suf) = Suc (length pre)"
proof -
  have "takeWhile (\<lambda>c. \<not> p c) (rev suf @ c # rev pre) = rev suf"
    using assms by (simp add: takeWhile_append1 takeWhile_append2 takeWhile_tail)
  then show ?thesis by (simp add: find_if_rbegin_base_def)
qed

lemma split_no_separator:
  assumes "\<forall>x \<in> set path. \<not> predict pf x"
  shows "split_directory_and_file pf path = \<lparr>directory = this_directory pf, filename = path\<rparr>"
  using find_if_rbegin_base_none [OF assms]
  by (simp add: split_directory_and_file_def)

lemma split_last_separator:
  assumes "predict pf c" and "\<forall>x \<in> set suf. \<not> predict pf x"
  shows "split_directory_and_file pf (pre @ c # suf) = \<lparr>directory = pre @ [c], filename = suf\<rparr>"
  using find_if_rbegin_base_last [OF assms, of pre]
  by (simp add: split_directory_and_file_def)

text \<open>
  Claim C5. Splitting a path uses the last separator (\<open>/\<close> on unix; \<open>/\<close> or \<open>\\<close> on
  Windows): when the path is \<open>pre @ [c] @ suf\<close> with \<open>c\<close> a separator and no separator
  in \<open>suf\<close>, the filename is \<open>suf\<close> and the directory is \<open>pre @ [c]\<close>; when the path has no
  separator, the directory is exactly \<open>./\<close> and the filename is the whole path.
\<close>

theorem split_directory_and_file_spec:
  "(c = CHR ''/'' \<and> CHR ''/'' \<notin> set suf \<longrightarrow>
      split_directory_and_file unix (pre @ c # suf) = \<lparr>directory = pre @ [c], filename = suf\<rparr>)
   \<and> (CHR ''/'' \<notin> set path \<longrightarrow>
      split_directory_and_file unix path = \<lparr>directory = ''./'', filename = path\<rparr>)
   \<and> ((w = 0x5C \<or> w = 0x2F) \<and> 0x5C \<notin> set wsuf \<and> 0x2F \<notin> set wsuf \<longrightarrow>
      split_directory_and_file win32 (wpre @ w # wsuf) = \<lparr>directory = wpre @ [w], filename = wsuf\<rparr>)
   \<and> (0x5C \<notin> set wpath \<and> 0x2F \<notin> set wpath \<longrightarrow>
      split_directory_and_file win32 wpath = \<lparr>directory = [0x2E, 0x2F], filename = wpath\<rparr>)"
proof (intro conjI impI)
  assume "c = CHR ''/'' \<and> CHR ''/'' \<notin> set suf"
  then have "predict unix c" and "\<forall>x \<in> set suf. \<not> predict unix x"
    by (auto simp: unix_def)
  then show "split_directory_and_file unix (pre @ c # suf) = \<lparr>directory = pre @ [c], filename = suf\<rparr>"
    by (rule split_last_separator)
next
  assume "CHR ''/'' \<notin> set path"
  then have "\<forall>x \<in> set path. \<not> predict unix x"
    by (auto simp: unix_def)
  from split_no_separator [OF this]
  show "split_directory_and_file unix path = \<lparr>directory = ''./'', filename = path\<rparr>"
    by (simp add: unix_def)
next
  assume "(w = 0x5C \<or> w = 0x2F) \<and> 0x5C \<notin> set wsuf \<and> 0x2F \<notin> set wsuf"
  then have "predict win32 w" and "\<forall>x \<in> set wsuf. \<not> predict win32 x"
    by (auto simp: win32_def)
  then show "split_directory_and_file win32 (wpre @ w # wsuf) = \<lparr>directory = wpre @ [w], filename = wsuf\<rparr>"
    by (rule split_last_separator)
next
  assume "0x5C \<notin> set wpath \<and> 0x2F \<notin> set wpath"
  then have "\<forall>x \<in> set wpath. \<not> predict win32 x"
    by (auto simp: win32_def)
  from split_no_separator [OF this]
  show "split_directory_and_file win32 wpath = \<lparr>directory = [0x2E, 0x2F], filename = wpath\<rparr>"
    by (simp add: win32_def)
qed

theorem split_directory_and_file_spec_witness:
  "split_directory_and_file unix ''/tmp/w/x.txt'' = \<lparr>directory = ''/tmp/w/'', filename = ''x.txt''\<rparr>
   \<and> split_directory_and_file unix ''test.txt'' = \<lparr>directory = ''./'', filename = ''test.txt''\<rparr>
   \<and> split_directory_and_file win32 [0x43, 0x3A, 0x5C, 0x64, 0x2F, 0x61]
        = \<lparr>directory = [0x43, 0x3A, 0x5C, 0x64, 0x2F], filename = [0x61]\<rparr>
   \<and> split_directory_and_file win32 [0x61, 0x62] = \<lparr>directory = [0x2E, 0x2F], filename = [0x61, 0x62]\<rparr>"
  using split_directory_and_file_spec [of "CHR ''/''" "''x.txt''" "''/tmp/w''" "''test.txt''"
      "0x2F" "[0x61]" "[0x43, 0x3A, 0x5C, 0x64]" "[0x61, 0x62]"]
  by simp

text \<open>
  Claim C6. \<^verbatim>\<open>pass_filter\<close> returns true for every candidate name in Directory mode
  (\<^verbatim>\<open>_watching_single_file\<close> false); in SingleFile mode it returns true if and only if
  the filename part of the candidate, as \<^verbatim>\<open>split_directory_and_file\<close> gives it, equals
  \<^verbatim>\<open>_filename\<close> character for character.
\<close>

theorem pass_filter_spec:
  "(\<not> fw_watching_single_file w \<longrightarrow> pass_filter pf w candidate_name)
   \<and> (fw_watching_single_file w \<longrightarrow>
        (pass_filter pf w candidate_name \<longleftrightarrow>
           filename (split_directory_and_file pf candidate_name) = fw_filename w))"
  by (simp add: pass_filter_def)

theorem pass_filter_spec_witness:
  "pass_filter unix \<lparr>fw_watching_single_file = False, fw_filename = []\<rparr> ''b.txt''
   \<and> pass_filter unix \<lparr>fw_watching_single_file = True, fw_filename = ''a.txt''\<rparr> ''sub/a.txt''
   \<and> \<not> pass_filter unix \<lparr>fw_watching_single_file = True, fw_filename = ''a.txt''\<rparr> ''A.txt''
   \<and> \<not> pass_filter unix \<lparr>fw_watching_single_file = True, fw_filename = ''a.txt''\<rparr> ''a.txt/b''"
proof -
  have s1: "filename (split_directory_and_file unix ''sub/a.txt'') = ''a.txt''"
    using split_last_separator [of unix "CHR ''/''" "''a.txt''" "''sub''"] by (simp add: unix_def)
  have s2: "filename (split_directory_and_file unix ''A.txt'') = ''A.txt''"
    using split_no_separator [of "''A.txt''" unix] by (simp add: unix_def)
  have s3: "filename (split_directory_and_file unix ''a.txt/b'') = ''b''"
    using split_last_separator [of unix "CHR ''/''" "''b''" "''a.txt''"] by (simp add: unix_def)
  show ?thesis
    using pass_filter_spec [of "\<lparr>fw_watching_single_file = False, fw_filename = []\<rparr>" unix "''b.txt''"]
      pass_filter_spec [of "\<lparr>fw_watching_single_file = True, fw_filename = ''a.txt''\<rparr>" unix "''sub/a.txt''"]
      pass_filter_spec [of "\<lparr>fw_watching_single_file = True, fw_filename = ''a.txt''\<rparr>" unix "''A.txt''"]
      pass_filter_spec [of "\<lparr>fw_watching_single_file = True, fw_filename = ''a.txt''\<rparr>" unix "''a.txt/b''"]
    by (simp add: s1 s2 s3)
qed

section \<open>Properties of the dispatcher\<close>

lemmas step_defs = step_def callback_thread_step_def invoke_def swap_out_def

lemma step_terminated_absorbing:
  "step cb a s = Some s' \<Longrightarrow> position s = terminated \<Longrightarrow>
     position s' = terminated \<and> calls s' = calls s"
  by (auto simp: step_defs split: action.splits)

lemma run_terminated_absorbing:
  "run cb sched s = Some s' \<Longrightarrow> position s = terminated \<Longrightarrow>
     position s' = terminated \<and> calls s' = calls s"
proof (induction sched arbitrary: s)
  case Nil
  then show ?case by simp
next
  case (Cons a sched)
  then show ?case
    by (auto split: option.splits dest!: step_terminated_absorbing)
qed

lemma step_conserve:
  "step (Some c) a s = Some s' \<Longrightarrow> position s' \<noteq> terminated \<Longrightarrow>
     calls s' @ in_flight (position s') @ fw_callback_information s'
       = calls s @ in_flight (position s) @ fw_callback_information s @ enqueued [a]"
  by (auto simp: step_defs split: action.splits position.splits list.splits if_splits
        cb_outcome.splits prod.splits)

lemma step_conserve_append:
  assumes "step (Some c) a s = Some s'" and "position s' \<noteq> terminated"
  shows "calls s' @ in_flight (position s') @ fw_callback_information s' @ enqueued sched
       = calls s @ in_flight (position s) @ fw_callback_information s @ enqueued (a # sched)"
proof -
  have "(calls s' @ in_flight (position s') @ fw_callback_information s') @ enqueued sched
      = (calls s @ in_flight (position s) @ fw_callback_information s @ enqueued [a]) @ enqueued sched"
    using step_conserve [OF assms] by simp
  then show ?thesis
    by (cases a) simp_all
qed

lemma step_into_terminated:
  "step cb a s = Some s' \<Longrightarrow> position s' = terminated \<Longrightarrow> position s \<noteq> terminated \<Longrightarrow>
     \<exists>file rest. position s = in_for (file # rest) \<and> calls s' = calls s @ [file]"
  by (auto simp: step_defs split: action.splits position.splits list.splits if_splits
        cb_outcome.splits prod.splits option.splits)

lemma step_no_callback:
  "step None a s = Some s' \<Longrightarrow> calls s' = calls s \<and> user s' = user s \<and>
     (position s \<noteq> terminated \<longrightarrow> position s' \<noteq> terminated)"
  by (auto simp: step_defs split: action.splits position.splits list.splits if_splits)

lemma step_only_std:
  "step (Some c) a s = Some s' \<Longrightarrow> \<forall>f e u. fst (c f e u) \<noteq> throws_other \<Longrightarrow>
     position s \<noteq> terminated \<Longrightarrow> position s' \<noteq> terminated"
  apply (auto simp: step_defs split: action.splits position.splits list.splits if_splits
        cb_outcome.splits prod.splits)
  by (metis fst_conv)

lemma step_exited:
  "step cb a s = Some s' \<Longrightarrow> position s' = exited \<Longrightarrow> position s = exited \<or> fw_destory s"
  by (auto simp: step_defs split: action.splits position.splits list.splits if_splits
        cb_outcome.splits prod.splits option.splits)

lemma step_destory_mono:
  "step cb a s = Some s' \<Longrightarrow> fw_destory s \<Longrightarrow> fw_destory s'"
  by (auto simp: step_defs split: action.splits position.splits list.splits if_splits
        cb_outcome.splits prod.splits option.splits)

lemma enqueued_Cons: "enqueued (a # as) = enqueued [a] @ enqueued as"
  by (cases a) simp_all

lemma run_no_callback:
  "run None sched s = Some s' \<Longrightarrow> calls s' = calls s \<and> user s' = user s \<and>
     (position s \<noteq> terminated \<longrightarrow> position s' \<noteq> terminated)"
proof (induction sched arbitrary: s)
  case Nil
  then show ?case by simp
next
  case (Cons a sched)
  from Cons.prems obtain s1 where a: "step None a s = Some s1" and r: "run None sched s1 = Some s'"
    by (auto split: option.splits)
  from step_no_callback [OF a] Cons.IH [OF r] show ?case by simp
qed

lemma run_only_std:
  assumes "\<forall>f e u. fst (c f e u) \<noteq> throws_other"
  shows "run (Some c) sched s = Some s' \<Longrightarrow> position s \<noteq> terminated \<Longrightarrow>
     position s' \<noteq> terminated \<and>
     calls s' @ in_flight (position s') @ fw_callback_information s'
       = calls s @ in_flight (position s) @ fw_callback_information s @ enqueued sched"
proof (induction sched arbitrary: s)
  case Nil
  then show ?case by simp
next
  case (Cons a sched)
  from Cons.prems obtain s1 where a: "step (Some c) a s = Some s1"
    and r: "run (Some c) sched s1 = Some s'"
    by (auto split: option.splits)
  have nt: "position s1 \<noteq> terminated"
    using step_only_std [OF a assms] Cons.prems(2) by simp
  from Cons.IH [OF r nt] step_conserve_append [OF a nt, of sched]
  show ?case by simp
qed

lemma run_calls_prefix:
  "run (Some c) sched s = Some s' \<Longrightarrow>
     prefix (calls s') (calls s @ in_flight (position s) @ fw_callback_information s @ enqueued sched)"
proof (induction sched arbitrary: s)
  case Nil
  then show ?case by simp
next
  case (Cons a sched)
  from Cons.prems obtain s1 where a: "step (Some c) a s = Some s1"
    and r: "run (Some c) sched s1 = Some s'"
    by (auto split: option.splits)
  show ?case
  proof (cases "position s1 = terminated")
    case True
    with run_terminated_absorbing [OF r] have same: "calls s' = calls s1" by simp
    show ?thesis
    proof (cases "position s = terminated")
      case True
      with step_terminated_absorbing [OF a] same show ?thesis by simp
    next
      case False
      from step_into_terminated [OF a \<open>position s1 = terminated\<close> False]
      obtain ev rest where "position s = in_for (ev # rest)" "calls s1 = calls s @ [ev]"
        by blast
      with same show ?thesis by simp
    qed
  next
    case False
    from Cons.IH [OF r] step_conserve_append [OF a False, of sched]
    show ?thesis by simp
  qed
qed

text \<open>
  Claim C7. From the start of the dispatcher thread, under every interleaving of the
  monitor's appends, the destructor's flag and the dispatcher's steps, the sequence of
  callback invocations is a prefix of the concatenation, in order, of the
  \<^verbatim>\<open>parsed_information\<close> lists the monitor appended: appending a batch at the end,
  swapping the whole queue out and iterating it never reorders events.
\<close>

theorem callback_order_is_enqueue_order:
  "run cb sched (started u) = Some s \<Longrightarrow> prefix (calls s) (enqueued sched)"
proof (cases cb)
  case None
  assume "run cb sched (started u) = Some s"
  with None run_no_callback [of sched "started u" s] show ?thesis
    by (simp add: started_def)
next
  case (Some c)
  assume "run cb sched (started u) = Some s"
  with Some run_calls_prefix [of c sched "started u" s] show ?thesis
    by (simp add: started_def)
qed

lemma run_destory_mono:
  "run cb sched s = Some s' \<Longrightarrow> fw_destory s \<Longrightarrow> fw_destory s'"
proof (induction sched arbitrary: s)
  case Nil
  then show ?case by simp
next
  case (Cons a sched)
  from Cons.prems obtain s1 where a: "step cb a s = Some s1" and r: "run cb sched s1 = Some s'"
    by (auto split: option.splits)
  from step_destory_mono [OF a] Cons.prems(2) Cons.IH [OF r] show ?case by simp
qed

lemma run_exited:
  "run cb sched s = Some s' \<Longrightarrow> position s' = exited \<Longrightarrow> position s = exited \<or> fw_destory s'"
proof (induction sched arbitrary: s)
  case Nil
  then show ?case by simp
next
  case (Cons a sched)
  from Cons.prems obtain s1 where a: "step cb a s = Some s1" and r: "run cb sched s1 = Some s'"
    by (auto split: option.splits)
  from Cons.IH [OF r Cons.prems(2)] show ?case
  proof
    assume "position s1 = exited"
    from step_exited [OF a this] show ?thesis
    proof
      assume "fw_destory s"
      with step_destory_mono [OF a] run_destory_mono [OF r] show ?thesis by simp
    qed simp
  qed simp
qed

lemma step_committed:
  "step (Some c) a s = Some s' \<Longrightarrow> position s' \<noteq> terminated \<Longrightarrow>
     prefix (committed s) (committed s')"
  by (auto simp: step_defs split: action.splits position.splits list.splits if_splits
        cb_outcome.splits prod.splits)

lemma run_committed:
  "run (Some c) sched s = Some s' \<Longrightarrow> position s' = exited \<Longrightarrow>
     prefix (committed s) (calls s')"
proof (induction sched arbitrary: s)
  case Nil
  then show ?case by simp
next
  case (Cons a sched)
  from Cons.prems obtain s1 where a: "step (Some c) a s = Some s1"
    and r: "run (Some c) sched s1 = Some s'"
    by (auto split: option.splits)
  have "position s1 \<noteq> terminated"
    using run_terminated_absorbing [OF r] Cons.prems(2) by auto
  from step_committed [OF a this] Cons.IH [OF r Cons.prems(2)]
  show ?case by (rule prefix_order.trans)
qed

theorem callback_order_is_enqueue_order_witness:
  "run (Some (\<lambda>f e u. (returns, Suc u)))
      [enqueue [(''a.txt'', added), (''a.txt'', modified)], dispatch, dispatch,
       enqueue [(''b.txt'', removed)], dispatch, dispatch, dispatch, dispatch, dispatch, dispatch]
      (started (0::nat))
     = Some \<lparr>fw_destory = False, fw_callback_information = [], position = in_for [],
             user = 3, calls = [(''a.txt'', added), (''a.txt'', modified), (''b.txt'', removed)]\<rparr>
   \<and> prefix [(''a.txt'', added), (''a.txt'', modified), (''b.txt'', removed)]
        (enqueued [enqueue [(''a.txt'', added), (''a.txt'', modified)], dispatch, dispatch,
       enqueue [(''b.txt'', removed)], dispatch, dispatch, dispatch, dispatch, dispatch, dispatch])"
proof -
  have r: "run (Some (\<lambda>f e u. (returns, Suc u)))
      [enqueue [(''a.txt'', added), (''a.txt'', modified)], dispatch, dispatch,
       enqueue [(''b.txt'', removed)], dispatch, dispatch, dispatch, dispatch, dispatch, dispatch]
      (started (0::nat))
     = Some \<lparr>fw_destory = False, fw_callback_information = [], position = in_for [],
             user = 3, calls = [(''a.txt'', added), (''a.txt'', modified), (''b.txt'', removed)]\<rparr>"
    by (simp add: started_def step_defs eval_nat_numeral)
  from callback_order_is_enqueue_order [OF r] r show ?thesis by simp
qed

text \<open>
  Claim C1, as amended. The claim as stated fails: the handler at lines 423 to 425 is
  \<^verbatim>\<open>catch (const std::exception&)\<close>, so a callback that throws a value of another type
  is not caught, the exception leaves the thread function and the dispatcher ends
  (the counterexample below). What holds: for a callback
  that throws nothing but exceptions derived from \<^verbatim>\<open>std::exception\<close>, each iteration of
  the range-for makes the call and goes on to the next element whatever the call did;
  and under every interleaving the dispatcher is never terminated and no event is
  skipped: the calls made, then the elements still to visit, then the queue are exactly
  the events appended so far, in order.
\<close>

theorem callback_std_exception_isolated:
  assumes "\<forall>f e u. fst (c f e u) \<noteq> throws_other"
  shows "(position s = in_for (ev # rest) \<longrightarrow>
            callback_thread_step (Some c) s
              = Some (s\<lparr>position := in_for rest, user := snd (c (fst ev) (snd ev) (user s)),
                        calls := calls s @ [ev]\<rparr>))
       \<and> (run (Some c) sched (started u0) = Some s' \<longrightarrow>
            position s' \<noteq> terminated \<and>
            calls s' @ in_flight (position s') @ fw_callback_information s' = enqueued sched)"
proof (intro conjI impI)
  assume p: "position s = in_for (ev # rest)"
  obtain o1 u1 where c: "c (fst ev) (snd ev) (user s) = (o1, u1)"
    by (cases "c (fst ev) (snd ev) (user s)")
  with assms have "o1 \<noteq> throws_other"
    by (metis fst_conv)
  with p c show "callback_thread_step (Some c) s
      = Some (s\<lparr>position := in_for rest, user := snd (c (fst ev) (snd ev) (user s)),
                calls := calls s @ [ev]\<rparr>)"
    by (cases o1) (simp_all add: callback_thread_step_def invoke_def)
next
  assume r: "run (Some c) sched (started u0) = Some s'"
  have "position (started u0 :: ('a, 'b) session) \<noteq> terminated"
    by (simp add: started_def)
  from run_only_std [OF assms r this]
  show "position s' \<noteq> terminated" by simp
  from run_only_std [OF assms r \<open>position (started u0) \<noteq> terminated\<close>]
  show "calls s' @ in_flight (position s') @ fw_callback_information s' = enqueued sched"
    by (simp add: started_def)
qed

theorem callback_std_exception_isolated_witness:
  "(\<forall>f e u. fst ((\<lambda>f e u. (if f = ''a.txt'' then throws_std_exception else returns, Suc u)) f e (u::nat))
        \<noteq> throws_other)
   \<and> callback_thread_step (Some (\<lambda>f e u. (if f = ''a.txt'' then throws_std_exception else returns, Suc u)))
        \<lparr>fw_destory = False, fw_callback_information = [],
         position = in_for [(''a.txt'', added), (''b.txt'', added)], user = 0::nat, calls = []\<rparr>
       = Some \<lparr>fw_destory = False, fw_callback_information = [],
         position = in_for [(''b.txt'', added)], user = 1, calls = [(''a.txt'', added)]\<rparr>
   \<and> run (Some (\<lambda>f e u. (if f = ''a.txt'' then throws_std_exception else returns, Suc u)))
        [enqueue [(''a.txt'', added), (''b.txt'', added)], dispatch, dispatch, dispatch, dispatch]
        (started (0::nat))
       = Some \<lparr>fw_destory = False, fw_callback_information = [], position = in_for [],
               user = 2, calls = [(''a.txt'', added), (''b.txt'', added)]\<rparr>"
proof -
  let ?c = "\<lambda>(f::string) (e::Event) (u::nat). (if f = ''a.txt'' then throws_std_exception else returns, Suc u)"
  have h: "\<forall>f e u. fst (?c f e u) \<noteq> throws_other" by simp
  have r: "run (Some ?c)
        [enqueue [(''a.txt'', added), (''b.txt'', added)], dispatch, dispatch, dispatch, dispatch]
        (started (0::nat))
       = Some \<lparr>fw_destory = False, fw_callback_information = [], position = in_for [],
               user = 2, calls = [(''a.txt'', added), (''b.txt'', added)]\<rparr>"
    by (simp add: started_def step_defs eval_nat_numeral)
  from callback_std_exception_isolated [OF h,
      of "\<lparr>fw_destory = False, fw_callback_information = [],
         position = in_for [(''a.txt'', added), (''b.txt'', added)], user = 0::nat, calls = []\<rparr>"
         "(''a.txt'', added)" "[(''b.txt'', added)]"
         "[enqueue [(''a.txt'', added), (''b.txt'', added)], dispatch, dispatch, dispatch, dispatch]"
         0 "\<lparr>fw_destory = False, fw_callback_information = [], position = in_for [],
               user = 2, calls = [(''a.txt'', added), (''b.txt'', added)]\<rparr>"] h r
  show ?thesis by simp
qed

text \<open>
  The counterexample to claim C1 as stated: the callback throws a value that is not a
  \<^verbatim>\<open>std::exception\<close> on \<open>a.txt\<close>; the dispatcher ends there, and the callback is never
  invoked for \<open>b.txt\<close>, the next event of the same batch (no further dispatcher step is
  enabled).
\<close>

theorem callback_other_exception_counterexample:
  "run (Some (\<lambda>f e u. (if f = ''a.txt'' then throws_other else returns, Suc u)))
        [enqueue [(''a.txt'', added), (''b.txt'', added)], dispatch, dispatch, dispatch]
        (started (0::nat))
       = Some \<lparr>fw_destory = False, fw_callback_information = [], position = terminated,
               user = 1, calls = [(''a.txt'', added)]\<rparr>
   \<and> run (Some (\<lambda>f e u. (if f = ''a.txt'' then throws_other else returns, Suc u)))
        [enqueue [(''a.txt'', added), (''b.txt'', added)], dispatch, dispatch, dispatch, dispatch]
        (started (0::nat)) = None"
  by (simp add: started_def step_defs eval_nat_numeral)

text \<open>
  Claim C10. With an empty \<^verbatim>\<open>std::function\<close> as callback, the check \<^verbatim>\<open>if (_callback)\<close>
  at line 418 skips the call: each iteration of the range-for only moves on to the next
  element, and under every interleaving no call is ever made, the dispatcher is never
  terminated and the user's state is untouched.
\<close>

theorem empty_callback_drops_events:
  "(position s = in_for (ev # rest) \<longrightarrow>
      callback_thread_step None s = Some (s\<lparr>position := in_for rest\<rparr>))
   \<and> (run None sched (started u) = Some s' \<longrightarrow>
        calls s' = [] \<and> user s' = u \<and> position s' \<noteq> terminated)"
proof (intro conjI impI)
  assume "position s = in_for (ev # rest)"
  then show "callback_thread_step None s = Some (s\<lparr>position := in_for rest\<rparr>)"
    by (simp add: callback_thread_step_def invoke_def)
next
  assume r: "run None sched (started u) = Some s'"
  from run_no_callback [OF r]
  show "calls s' = []" "user s' = u" "position s' \<noteq> terminated"
    by (simp_all add: started_def)
qed

theorem empty_callback_drops_events_witness:
  "callback_thread_step None
      \<lparr>fw_destory = False, fw_callback_information = [],
       position = in_for [(''a.txt'', added), (''b.txt'', added)], user = 0::nat, calls = []\<rparr>
     = Some \<lparr>fw_destory = False, fw_callback_information = [],
       position = in_for [(''b.txt'', added)], user = 0, calls = []\<rparr>
   \<and> run None
        [enqueue [(''a.txt'', added), (''b.txt'', added)], dispatch, dispatch, dispatch, dispatch,
         dispatch, dispatch, dispatch, enqueue [(''c.txt'', removed)], dispatch, dispatch]
        (started (0::nat))
       = Some \<lparr>fw_destory = False, fw_callback_information = [], position = in_for [],
               user = 0, calls = []\<rparr>"
proof -
  let ?sched = "[enqueue [(''a.txt'', added), (''b.txt'', added)], dispatch, dispatch, dispatch,
         dispatch, dispatch, dispatch, dispatch, enqueue [(''c.txt'', removed)], dispatch, dispatch]"
  let ?end = "\<lparr>fw_destory = False, fw_callback_information = [], position = in_for [],
               user = 0::nat, calls = [] :: (string \<times> Event) list\<rparr>"
  have r: "run None ?sched (started (0::nat)) = Some ?end"
    by (simp add: started_def step_defs)
  have t: "callback_thread_step None
      \<lparr>fw_destory = False, fw_callback_information = [],
       position = in_for [(''a.txt'', added), (''b.txt'', added)], user = 0::nat, calls = []\<rparr>
     = Some \<lparr>fw_destory = False, fw_callback_information = [],
       position = in_for [(''b.txt'', added)], user = 0, calls = []\<rparr>"
    using empty_callback_drops_events [of
      "\<lparr>fw_destory = False, fw_callback_information = [],
       position = in_for [(''a.txt'', added), (''b.txt'', added)], user = 0::nat, calls = []\<rparr>"
      "(''a.txt'', added)" "[(''b.txt'', added)]" ?sched 0 ?end]
    by simp
  from t r show ?thesis by (rule conjI)
qed

text \<open>
  Claim C2, as amended. The claim as stated fails: the loop condition at line 408 reads
  only \<^verbatim>\<open>_destory\<close>, so the thread returns with events still in the queue when they
  were appended while it was iterating an earlier batch and the flag was set before it
  came back to the loop condition (the counterexample below).
  What holds: the dispatcher returns only in a state where \<^verbatim>\<open>_destory\<close> is set; and with
  a callback present, the events that are in the queue while the dispatcher is about to
  take the mutex or is blocked in \<^verbatim>\<open>cv.wait\<close> have all been passed to the callback, in
  order, by the time it returns.
\<close>

theorem dispatcher_exit_spec:
  "(run cb sched (started u) = Some s' \<and> position s' = exited \<longrightarrow> fw_destory s')
   \<and> (run (Some c) sched2 s = Some s2 \<and> position s2 = exited
        \<and> (position s = at_lock \<or> position s = waiting) \<longrightarrow>
        prefix (calls s @ fw_callback_information s) (calls s2))"
proof (intro conjI impI)
  assume "run cb sched (started u) = Some s' \<and> position s' = exited"
  then have "position (started u :: ('a, 'b) session) = exited \<or> fw_destory s'"
    using run_exited by blast
  then show "fw_destory s'" by (simp add: started_def)
next
  assume a: "run (Some c) sched2 s = Some s2 \<and> position s2 = exited
        \<and> (position s = at_lock \<or> position s = waiting)"
  then have "prefix (committed s) (calls s2)"
    using run_committed by blast
  with a show "prefix (calls s @ fw_callback_information s) (calls s2)"
    by auto
qed

theorem dispatcher_exit_spec_witness:
  "run (Some (\<lambda>f e u. (returns, Suc u)))
      [dispatch, dispatch, enqueue [(''a.txt'', added)], set_destory,
       dispatch, dispatch, dispatch, dispatch] (started (0::nat))
     = Some \<lparr>fw_destory = True, fw_callback_information = [], position = exited,
             user = 1, calls = [(''a.txt'', added)]\<rparr>
   \<and> run (Some (\<lambda>f e u. (returns, Suc u)))
      [set_destory, dispatch, dispatch, dispatch, dispatch]
      \<lparr>fw_destory = False, fw_callback_information = [(''a.txt'', added)], position = waiting,
       user = 0::nat, calls = []\<rparr>
     = Some \<lparr>fw_destory = True, fw_callback_information = [], position = exited,
             user = 1, calls = [(''a.txt'', added)]\<rparr>
   \<and> prefix [(''a.txt'', added)] [(''a.txt'', added)]"
proof -
  let ?c = "\<lambda>(f::string) (e::Event) (u::nat). (returns, Suc u)"
  let ?end = "\<lparr>fw_destory = True, fw_callback_information = [], position = exited,
             user = 1::nat, calls = [(''a.txt'', added)]\<rparr>"
  let ?mid = "\<lparr>fw_destory = False, fw_callback_information = [(''a.txt'', added)],
             position = waiting, user = 0::nat, calls = []\<rparr>"
  have r1: "run (Some ?c) [dispatch, dispatch, enqueue [(''a.txt'', added)], set_destory,
       dispatch, dispatch, dispatch, dispatch] (started (0::nat)) = Some ?end"
    by (simp add: started_def step_defs)
  have r2: "run (Some ?c) [set_destory, dispatch, dispatch, dispatch, dispatch] ?mid = Some ?end"
    by (simp add: step_defs)
  from dispatcher_exit_spec [of "Some ?c" "[dispatch, dispatch, enqueue [(''a.txt'', added)], set_destory,
       dispatch, dispatch, dispatch, dispatch]" 0 ?end ?c
       "[set_destory, dispatch, dispatch, dispatch, dispatch]" ?mid ?end] r1 r2
  show ?thesis by simp
qed

text \<open>
  The counterexample to claim C2 as stated: \<open>b.txt\<close> is appended while the dispatcher is
  iterating the batch holding \<open>a.txt\<close>, then the destructor sets the flag; the dispatcher
  finishes the batch, reads the flag and returns with \<open>b.txt\<close> still in the queue and never
  passed to the callback.
\<close>

theorem dispatcher_exit_counterexample:
  "run (Some (\<lambda>f e u. (returns, Suc u)))
      [dispatch, enqueue [(''a.txt'', added)], dispatch, enqueue [(''b.txt'', added)], set_destory,
       dispatch, dispatch, dispatch] (started (0::nat))
     = Some \<lparr>fw_destory = True, fw_callback_information = [(''b.txt'', added)],
             position = exited, user = 1, calls = [(''a.txt'', added)]\<rparr>"
  by (simp add: started_def step_defs)

section \<open>Properties of the decoding loops\<close>

lemma to_int_id: "0 \<le> x \<Longrightarrow> x < 2 ^ 31 \<Longrightarrow> to_int x = x"
  by (simp add: to_int_def sint_sbintrunc' signed_take_bit_int_eq_self)

lemma frame_end_ge: "frame_end h i events \<ge> i"
proof (induction events arbitrary: i)
  case Nil
  then show ?case by simp
next
  case (Cons event events)
  have "i \<le> i + int (event_size h) + uint (len event)" by simp
  also have "\<dots> \<le> frame_end h (i + int (event_size h) + uint (len event)) events"
    by (rule Cons.IH)
  finally show ?case by simp
qed

lemma parse_inotify_framed:
  assumes "0 < event_size h"
  shows "framed h buffer i events \<Longrightarrow> 0 \<le> i \<Longrightarrow> frame_end h i events = length' \<Longrightarrow>
           length' < 2 ^ 31 \<Longrightarrow>
         parse_inotify h w buffer length' i parsed_information
           = Some (Inr (parsed_information @ concat (map (decode_inotify_event h w) events)))"
proof (induction events arbitrary: i parsed_information)
  case Nil
  then show ?case by (simp add: parse_inotify.simps)
next
  case (Cons event events)
  let ?j = "i + int (event_size h) + uint (len event)"
  have "0 \<le> uint (len event)" by simp
  with assms have j: "i < ?j" by linarith
  have "?j \<le> length'"
    using frame_end_ge [of ?j h events] Cons.prems(3) by simp
  with j Cons.prems have lt: "i < length'" and id: "to_int ?j = ?j"
    by (simp_all add: to_int_id)
  have "parse_inotify h w buffer length' i parsed_information
      = parse_inotify h w buffer length' ?j (parsed_information @ decode_inotify_event h w event)"
    using lt Cons.prems(1,2) id by (subst parse_inotify.simps) simp
  also have "\<dots> = Some (Inr ((parsed_information @ decode_inotify_event h w event)
                     @ concat (map (decode_inotify_event h w) events)))"
    using Cons.prems j by (intro Cons.IH) simp_all
  finally show ?case by simp
qed

lemma parse_notify_information_chained:
  "chained buffer off fis \<Longrightarrow>
     parse_notify_information h w buffer off parsed_information
       = emplace_all h w fis parsed_information"
proof (induction buffer off fis arbitrary: parsed_information rule: chained.induct)
  case (1 buffer off)
  then show ?case by simp
next
  case (2 buffer off fi)
  then show ?case by (simp split: sum.splits)
next
  case (3 buffer off fi fj rest)
  then show ?case by (simp split: sum.splits)
qed

text \<open>Whatever the buffer holds, the unix loop yields no rename event.\<close>

lemma decode_inotify_event_kinds:
  "e \<in> set (decode_inotify_event h w event) \<Longrightarrow> snd e \<in> {added, removed, modified}"
  by (auto simp: decode_inotify_event_def Let_def split: if_splits)

lemma parse_inotify_kinds:
  assumes "parse_inotify h w buffer length' i parsed_information = Some r"
  shows "(\<forall>e \<in> set parsed_information. snd e \<in> {added, removed, modified}) \<longrightarrow>
     (case r of Inl err \<Rightarrow> True
      | Inr events \<Rightarrow> \<forall>e \<in> set events. snd e \<in> {added, removed, modified})"
proof (rule parse_inotify.raw_induct [where P = "\<lambda>h w buffer length' i parsed_information r.
     (\<forall>e \<in> set parsed_information. snd e \<in> {added, removed, modified}) \<longrightarrow>
     (case r of Inl err \<Rightarrow> True
      | Inr events \<Rightarrow> \<forall>e \<in> set events. snd e \<in> {added, removed, modified})", OF _ assms],
    goal_cases)
  case (1 parse h w buffer length' i parsed_information r)
  show ?case
  proof (cases "i < length'")
    case False
    with 1(2) show ?thesis by fastforce
  next
    case True
    show ?thesis
    proof (cases "i < 0 \<or> buffer i = None")
      case True
      with \<open>i < length'\<close> 1(2) have "r = Inl undefined_behaviour"
        by (auto split: if_splits)
      then show ?thesis by simp
    next
      case False
      then obtain event where ev: "buffer i = Some event" and "\<not> i < 0" by auto
      with \<open>i < length'\<close> 1(2) have
        "parse h w buffer length' (to_int (i + int (event_size h) + uint (len event)))
           (parsed_information @ decode_inotify_event h w event) = Some r"
        by simp
      from 1(1) [OF this] decode_inotify_event_kinds [of _ h w event]
      show ?thesis by (cases r) auto
    qed
  qed
qed

text \<open>
  A record whose mask has none of the three tested bits appends nothing on unix; on
  Windows a record that passes the filter and whose action code is not a key of the
  map ends the loop with \<^verbatim>\<open>std::out_of_range\<close>.
\<close>

lemma decode_inotify_event_unmapped:
  "mask event AND IN_CREATE h = 0 \<Longrightarrow> mask event AND IN_DELETE h = 0 \<Longrightarrow>
     mask event AND IN_MODIFY h = 0 \<Longrightarrow> decode_inotify_event h w event = []"
  by (simp add: decode_inotify_event_def Let_def)

lemma parse_notify_information_unmapped:
  assumes "file_information < buffer_size" and "buffer file_information = Some fi"
    and "pass_filter win32 w (take (unat (FileNameLength fi) div 2) (FileName fi))"
    and "event_type_mapping h (Action fi) = None"
  shows "parse_notify_information h w buffer file_information parsed_information
           = Inl out_of_range"
  using assms by (simp add: emplace_notify_information_def)

lemmas decode_defs = decode_inotify_event_def pass_filter_def linux_inotify_h_def to_int_def
  emplace_notify_information_def event_type_mapping_def windows_winnt_h_def buffer_size_def

text \<open>
  Claim C9, as amended. The claim as stated fails on unix: a record whose \<^verbatim>\<open>len\<close> is zero
  appends nothing, but the loop goes on at \<^verbatim>\<open>i + event_size\<close> and decodes the records
  after it (the counterexample below). What holds: on unix,
  when the first \<^verbatim>\<open>length\<close> bytes of the buffer hold records back to back, each taking
  \<^verbatim>\<open>event_size + len\<close> bytes, the loop decodes every one of them in order and returns
  when the offset reaches \<^verbatim>\<open>length\<close>; a record with \<^verbatim>\<open>len\<close> zero only contributes no
  event. On Windows, when the buffer holds a chain of records linked by
  \<^verbatim>\<open>NextEntryOffset\<close> whose last record has \<^verbatim>\<open>NextEntryOffset\<close> zero, the loop decodes
  exactly the records of the chain: the record with \<^verbatim>\<open>NextEntryOffset\<close> zero is decoded
  and ends the batch, whatever the buffer holds after it, and what was decoded before
  it is kept.
\<close>

theorem record_framing_spec:
  "(0 < event_size h \<and> framed h buffer 0 events \<and> frame_end h 0 events = length'
      \<and> length' < 2 ^ 31 \<longrightarrow>
      parse_inotify h w buffer length' 0 []
        = Some (Inr (concat (map (decode_inotify_event h w) events))))
   \<and> (len event = 0 \<longrightarrow> decode_inotify_event h w event = [])
   \<and> (chained nbuffer 0 fis \<longrightarrow>
        parse_notify_information nh nw nbuffer 0 [] = emplace_all nh nw fis [])"
proof (intro conjI impI)
  assume a: "0 < event_size h \<and> framed h buffer 0 events \<and> frame_end h 0 events = length'
      \<and> length' < 2 ^ 31"
  then have "parse_inotify h w buffer length' 0 []
      = Some (Inr ([] @ concat (map (decode_inotify_event h w) events)))"
    by (intro parse_inotify_framed) simp_all
  then show "parse_inotify h w buffer length' 0 []
      = Some (Inr (concat (map (decode_inotify_event h w) events)))"
    by simp
next
  assume "len event = 0"
  then show "decode_inotify_event h w event = []"
    by (simp add: decode_inotify_event_def)
next
  assume "chained nbuffer 0 fis"
  then show "parse_notify_information nh nw nbuffer 0 [] = emplace_all nh nw fis []"
    by (rule parse_notify_information_chained)
qed

theorem record_framing_spec_witness:
  "framed linux_inotify_h
      [0 \<mapsto> \<lparr>mask = 0x4000, len = 0, name = ''''\<rparr>,
       16 \<mapsto> \<lparr>mask = 0x100, len = 16, name = ''a.txt''\<rparr>,
       48 \<mapsto> \<lparr>mask = 0x2, len = 16, name = ''a.txt''\<rparr>] 0
      [\<lparr>mask = 0x4000, len = 0, name = ''''\<rparr>,
       \<lparr>mask = 0x100, len = 16, name = ''a.txt''\<rparr>,
       \<lparr>mask = 0x2, len = 16, name = ''a.txt''\<rparr>]
   \<and> parse_inotify linux_inotify_h \<lparr>fw_watching_single_file = False, fw_filename = []\<rparr>
      [0 \<mapsto> \<lparr>mask = 0x4000, len = 0, name = ''''\<rparr>,
       16 \<mapsto> \<lparr>mask = 0x100, len = 16, name = ''a.txt''\<rparr>,
       48 \<mapsto> \<lparr>mask = 0x2, len = 16, name = ''a.txt''\<rparr>] 80 0 []
     = Some (Inr [(''a.txt'', added), (''a.txt'', modified)])
   \<and> decode_inotify_event linux_inotify_h \<lparr>fw_watching_single_file = False, fw_filename = []\<rparr>
        \<lparr>mask = 0x4000, len = 0, name = ''''\<rparr> = []
   \<and> chained
      [0 \<mapsto> \<lparr>NextEntryOffset = 24, Action = 1, FileNameLength = 10, FileName = [0x61, 0x2E, 0x74, 0x78, 0x74]\<rparr>,
       24 \<mapsto> \<lparr>NextEntryOffset = 0, Action = 3, FileNameLength = 10, FileName = [0x61, 0x2E, 0x74, 0x78, 0x74]\<rparr>,
       48 \<mapsto> \<lparr>NextEntryOffset = 0, Action = 2, FileNameLength = 10, FileName = [0x62, 0x2E, 0x74, 0x78, 0x74]\<rparr>] 0
      [\<lparr>NextEntryOffset = 24, Action = 1, FileNameLength = 10, FileName = [0x61, 0x2E, 0x74, 0x78, 0x74]\<rparr>,
       \<lparr>NextEntryOffset = 0, Action = 3, FileNameLength = 10, FileName = [0x61, 0x2E, 0x74, 0x78, 0x74]\<rparr>]
   \<and> parse_notify_information windows_winnt_h \<lparr>fw_watching_single_file = False, fw_filename = []\<rparr>
      [0 \<mapsto> \<lparr>NextEntryOffset = 24, Action = 1, FileNameLength = 10, FileName = [0x61, 0x2E, 0x74, 0x78, 0x74]\<rparr>,
       24 \<mapsto> \<lparr>NextEntryOffset = 0, Action = 3, FileNameLength = 10, FileName = [0x61, 0x2E, 0x74, 0x78, 0x74]\<rparr>,
       48 \<mapsto> \<lparr>NextEntryOffset = 0, Action = 2, FileNameLength = 10, FileName = [0x62, 0x2E, 0x74, 0x78, 0x74]\<rparr>] 0 []
     = Inr [([0x61, 0x2E, 0x74, 0x78, 0x74], added), ([0x61, 0x2E, 0x74, 0x78, 0x74], modified)]"
proof -
  let ?w = "\<lparr>fw_watching_single_file = False, fw_filename = [] :: string\<rparr>"
  let ?nw = "\<lparr>fw_watching_single_file = False, fw_filename = [] :: 16 word list\<rparr>"
  let ?e0 = "\<lparr>mask = 0x4000, len = 0, name = ''''\<rparr>"
  let ?e1 = "\<lparr>mask = 0x100, len = 16, name = ''a.txt''\<rparr>"
  let ?e2 = "\<lparr>mask = 0x2, len = 16, name = ''a.txt''\<rparr>"
  let ?buffer = "[0 \<mapsto> ?e0, 16 \<mapsto> ?e1, 48 \<mapsto> ?e2] :: inotify_buffer"
  let ?f0 = "\<lparr>NextEntryOffset = 24, Action = 1, FileNameLength = 10, FileName = [0x61, 0x2E, 0x74, 0x78, 0x74]\<rparr>"
  let ?f1 = "\<lparr>NextEntryOffset = 0, Action = 3, FileNameLength = 10, FileName = [0x61, 0x2E, 0x74, 0x78, 0x74]\<rparr>"
  let ?f2 = "\<lparr>NextEntryOffset = 0, Action = 2, FileNameLength = 10, FileName = [0x62, 0x2E, 0x74, 0x78, 0x74]\<rparr>"
  let ?nbuffer = "[0 \<mapsto> ?f0, 24 \<mapsto> ?f1, 48 \<mapsto> ?f2] :: notify_buffer"
  have fr: "framed linux_inotify_h ?buffer 0 [?e0, ?e1, ?e2]"
    by (simp add: linux_inotify_h_def)
  have fe: "frame_end linux_inotify_h 0 [?e0, ?e1, ?e2] = 80"
    by (simp add: linux_inotify_h_def)
  have es: "0 < event_size linux_inotify_h"
    by (simp add: linux_inotify_h_def)
  have ch: "chained ?nbuffer 0 [?f0, ?f1]"
    by (simp add: buffer_size_def)
  have d0: "decode_inotify_event linux_inotify_h ?w ?e0 = []"
    and d1: "decode_inotify_event linux_inotify_h ?w ?e1 = [(''a.txt'', added)]"
    and d2: "decode_inotify_event linux_inotify_h ?w ?e2 = [(''a.txt'', modified)]"
    by (simp_all add: decode_defs)
  have em: "emplace_all windows_winnt_h ?nw [?f0, ?f1] []
      = Inr [([0x61, 0x2E, 0x74, 0x78, 0x74], added), ([0x61, 0x2E, 0x74, 0x78, 0x74], modified)]"
    by (simp add: decode_defs)
  from record_framing_spec [of linux_inotify_h ?buffer "[?e0, ?e1, ?e2]" 80 ?w ?e0
      ?nbuffer "[?f0, ?f1]" windows_winnt_h ?nw] fr fe es ch
  have "parse_inotify linux_inotify_h ?w ?buffer 80 0 []
        = Some (Inr (concat (map (decode_inotify_event linux_inotify_h ?w) [?e0, ?e1, ?e2])))"
    and "parse_notify_information windows_winnt_h ?nw ?nbuffer 0 []
        = emplace_all windows_winnt_h ?nw [?f0, ?f1] []"
    by simp_all
  with fr ch d0 d1 d2 em show ?thesis by simp
qed

text \<open>
  The counterexample to claim C9 as stated: an inotify record with \<^verbatim>\<open>len\<close> zero (here
  the queue-overflow notice, mask 0x4000) followed by the creation of \<open>a.txt\<close>; the
  record after the zero-length one is decoded.
\<close>

theorem zero_length_record_counterexample:
  "parse_inotify linux_inotify_h \<lparr>fw_watching_single_file = False, fw_filename = []\<rparr>
      [0 \<mapsto> \<lparr>mask = 0x4000, len = 0, name = ''''\<rparr>,
       16 \<mapsto> \<lparr>mask = 0x100, len = 16, name = ''a.txt''\<rparr>] 48 0 []
     = Some (Inr [(''a.txt'', added)])"
  by (simp add: parse_inotify.simps decode_defs)

text \<open>
  Claim C3: the code at the failing input. On Windows a record that passes the filter
  and whose action code (6 here) is not a key of \<^verbatim>\<open>_event_type_mapping\<close> makes
  \<^verbatim>\<open>_event_type_mapping.at\<close> throw \<^verbatim>\<open>std::out_of_range\<close> in the monitor thread: the
  record is not skipped and the record after it is not decoded. The unix loop does
  skip a record none of whose tested bits is set (mask 0x4 here) and decodes the next.
\<close>

theorem unmapped_action_code_throws:
  "parse_notify_information windows_winnt_h \<lparr>fw_watching_single_file = False, fw_filename = []\<rparr>
      [0 \<mapsto> \<lparr>NextEntryOffset = 24, Action = 6, FileNameLength = 10, FileName = [0x61, 0x2E, 0x74, 0x78, 0x74]\<rparr>,
       24 \<mapsto> \<lparr>NextEntryOffset = 0, Action = 1, FileNameLength = 10, FileName = [0x62, 0x2E, 0x74, 0x78, 0x74]\<rparr>]
      0 []
     = Inl out_of_range
   \<and> parse_inotify linux_inotify_h \<lparr>fw_watching_single_file = False, fw_filename = []\<rparr>
      [0 \<mapsto> \<lparr>mask = 0x4, len = 16, name = ''a.txt''\<rparr>,
       32 \<mapsto> \<lparr>mask = 0x100, len = 16, name = ''b.txt''\<rparr>] 64 0 []
     = Some (Inr [(''b.txt'', added)])"
  by (simp add: parse_inotify.simps decode_defs)

text \<open>
  Claim C8: the code at the failing input. On unix the watch is registered for
  \<^verbatim>\<open>IN_MODIFY | IN_CREATE | IN_DELETE\<close>, which holds neither \<^verbatim>\<open>IN_MOVED_FROM\<close> (0x40) nor
  \<^verbatim>\<open>IN_MOVED_TO\<close> (0x80), the two events inotify reports for a rename; and records
  with those masks for \<open>a.txt\<close> and \<open>b.txt\<close> decode to no event at all. On Windows the
  records of the same rename (actions 4 and 5) decode to \<open>renamed_old\<close> for \<open>a.txt\<close>
  then \<open>renamed_new\<close> for \<open>b.txt\<close>.
\<close>

theorem rename_on_unix_yields_no_event:
  "listen_filters linux_inotify_h AND (0x40 OR 0x80) = 0
   \<and> parse_inotify linux_inotify_h \<lparr>fw_watching_single_file = False, fw_filename = []\<rparr>
      [0 \<mapsto> \<lparr>mask = 0x40, len = 16, name = ''a.txt''\<rparr>,
       32 \<mapsto> \<lparr>mask = 0x80, len = 16, name = ''b.txt''\<rparr>] 64 0 []
     = Some (Inr [])
   \<and> parse_notify_information windows_winnt_h \<lparr>fw_watching_single_file = False, fw_filename = []\<rparr>
      [0 \<mapsto> \<lparr>NextEntryOffset = 24, Action = 4, FileNameLength = 10, FileName = [0x61, 0x2E, 0x74, 0x78, 0x74]\<rparr>,
       24 \<mapsto> \<lparr>NextEntryOffset = 0, Action = 5, FileNameLength = 10, FileName = [0x62, 0x2E, 0x74, 0x78, 0x74]\<rparr>]
      0 []
     = Inr [([0x61, 0x2E, 0x74, 0x78, 0x74], renamed_old), ([0x62, 0x2E, 0x74, 0x78, 0x74], renamed_new)]"
  by (simp add: parse_inotify.simps decode_defs listen_filters_def)

section \<open>Properties of construction\<close>

lemmas constructor_defs = FileWatch_constructor_def get_directory_def is_file_def

lemma failed_construction:
  "FileWatch_constructor os path callback p = (Inl e, p') \<Longrightarrow>
     threads p' = threads p \<and> inotify_watches p' = inotify_watches p \<and>
     descriptors p' = (if inotify_init_returns os < 0 then descriptors p
                       else descriptors p @ [inotify_init_returns os])"
  by (auto simp: constructor_defs Let_def split: if_splits sum.splits prod.splits)

text \<open>
  Claim C4: the code at the failing input. On unix \<^verbatim>\<open>get_directory\<close> opens the inotify
  descriptor first; when \<^verbatim>\<open>stat\<close> fails (error 2, no such file) or
  \<^verbatim>\<open>inotify_add_watch\<close> fails (error 28, no space left), the constructor throws with no
  thread started, but descriptor 3 is still open in the process and nothing refers to
  it any more.
\<close>

theorem failed_construction_keeps_descriptor:
  "FileWatch_constructor
      \<lparr>inotify_init_returns = 3, stat_returns = -1, S_ISREG = False,
       inotify_add_watch_returns = -1, errno = 2\<rparr>
      ''/tmp/missing'' (None :: (char, unit) callback option)
      \<lparr>descriptors = [0, 1, 2], inotify_watches = [], threads = 0\<rparr>
     = (Inl 2, \<lparr>descriptors = [0, 1, 2, 3], inotify_watches = [], threads = 0\<rparr>)
   \<and> FileWatch_constructor
      \<lparr>inotify_init_returns = 3, stat_returns = 0, S_ISREG = False,
       inotify_add_watch_returns = -1, errno = 28\<rparr>
      ''/tmp/w'' (None :: (char, unit) callback option)
      \<lparr>descriptors = [0, 1, 2], inotify_watches = [], threads = 0\<rparr>
     = (Inl 28, \<lparr>descriptors = [0, 1, 2, 3], inotify_watches = [], threads = 0\<rparr>)"
  by (simp add: constructor_defs)

end
